theory Spec2Isabelle
  imports Main "HOL-Library.AList"
begin

section \<open>Python values\<close>

text \<open>
  The program handles JSON documents that Python has parsed into dictionaries, lists and
  scalars. Dictionaries and lists are objects with identity: \<open>insert_nested_key\<close> mutates
  dictionaries in place, and a value taken out of the source event by \<open>get_nested_value\<close>
  is the very object that sits in the event. So containers live in a heap (a list of
  objects, an address is an index) and a value is a scalar or a reference.

  Numbers are integers (Python's unbounded \<open>int\<close>); JSON numbers with a fraction or an
  exponent are outside the model. Strings are HOL strings, read as ASCII text: case mapping
  and white space of characters beyond ASCII are outside the model.
\<close>

datatype py_error = KeyError | IndexError | TypeError | ValueError | AttributeError | RuntimeError

datatype pyval = PNone | PBool bool | PInt int | PStr string | PRef nat

datatype pyobj = ODict "(string \<times> pyval) list" | OList "pyval list"

type_synonym heap = "pyobj list"

text \<open>A well-formed heap has no dangling reference; \<open>deref\<close> is total all the same.\<close>

definition deref :: "heap \<Rightarrow> nat \<Rightarrow> pyobj" where
  "deref h a = (if a < length h then h ! a else ODict [])"

definition alloc :: "heap \<Rightarrow> pyobj \<Rightarrow> nat \<times> heap" where
  "alloc h ob = (length h, h @ [ob])"

text \<open>A JSON document, as the database and the HTTP responses hold it.\<close>

datatype json = JNull | JBool bool | JNum int | JStr string
  | JArr "json list" | JObj "(string \<times> json) list"

text \<open>
  \<open>json.loads\<close>: every array and object becomes a fresh list or dictionary. A key that
  occurs twice in an object keeps its first position and its last value, as a Python
  dictionary does.
\<close>

fun load :: "json \<Rightarrow> heap \<Rightarrow> pyval \<times> heap"
  and load_list :: "json list \<Rightarrow> heap \<Rightarrow> pyval list \<times> heap"
  and load_items :: "(string \<times> json) list \<Rightarrow> heap \<Rightarrow> (string \<times> pyval) list \<times> heap" where
  "load JNull h = (PNone, h)"
| "load (JBool b) h = (PBool b, h)"
| "load (JNum n) h = (PInt n, h)"
| "load (JStr s) h = (PStr s, h)"
| "load (JArr js) h = (case load_list js h of (vs, h') \<Rightarrow> (PRef (length h'), h' @ [OList vs]))"
| "load (JObj kvs) h = (case load_items kvs h of (items, h') \<Rightarrow>
     (PRef (length h'), h' @ [ODict (foldl (\<lambda>d (k, v). AList.update k v d) [] items)]))"
| "load_list [] h = ([], h)"
| "load_list (j # js) h = (case load j h of (v, h') \<Rightarrow>
     (case load_list js h' of (vs, h'') \<Rightarrow> (v # vs, h'')))"
| "load_items [] h = ([], h)"
| "load_items ((k, j) # kvs) h = (case load j h of (v, h') \<Rightarrow>
     (case load_items kvs h' of (items, h'') \<Rightarrow> ((k, v) # items, h'')))"

section \<open>Python string operations\<close>

definition startswith :: "string \<Rightarrow> string \<Rightarrow> bool" where
  "startswith s p = (take (length p) s = p)"

text \<open>
  \<open>s.split(sep)\<close> for a non-empty separator: the occurrences of \<open>sep\<close> are found from the
  left and do not overlap; the result always has at least one piece. Every call in the
  program passes a literal, non-empty separator.
\<close>

fun py_split :: "string \<Rightarrow> string \<Rightarrow> string list" where
  "py_split [] sep = [[]]"
| "py_split (c # cs) sep =
     (if startswith (c # cs) sep then [] # py_split (drop (length sep - 1) cs) sep
      else (case py_split cs sep of [] \<Rightarrow> [[c]] | p # ps \<Rightarrow> (c # p) # ps))"

definition py_isspace :: "char \<Rightarrow> bool" where
  "py_isspace c = (c \<in> set [CHR 0x09, CHR 0x0A, CHR 0x0B, CHR 0x0C, CHR 0x0D,
                             CHR 0x1C, CHR 0x1D, CHR 0x1E, CHR 0x1F, CHR 0x20])"

definition py_strip :: "string \<Rightarrow> string" where
  "py_strip s = rev (dropWhile py_isspace (rev (dropWhile py_isspace s)))"

definition py_upper_char :: "char \<Rightarrow> char" where
  "py_upper_char c = (let n = (of_char c :: nat) in if 97 \<le> n \<and> n \<le> 122 then char_of (n - 32) else c)"

definition py_upper :: "string \<Rightarrow> string" where
  "py_upper s = map py_upper_char s"

definition is_digit :: "char \<Rightarrow> bool" where
  "is_digit c = (let n = (of_char c :: nat) in 48 \<le> n \<and> n \<le> 57)"

definition digit_val :: "char \<Rightarrow> int" where
  "digit_val c = int (of_char c) - 48"

text \<open>
  \<open>int(s)\<close> on a string: white space around the number is dropped, one sign is allowed,
  and the digits may be grouped by single underscores. Anything else is a ValueError.
  (The limit on the number of digits that recent Python versions apply is not modelled.)
\<close>

definition py_int :: "string \<Rightarrow> py_error + int" where
  "py_int s =
     (let t = py_strip s;
          neg = (case t of [] \<Rightarrow> False | c # _ \<Rightarrow> c = CHR ''-'');
          body = (case t of [] \<Rightarrow> [] | c # r \<Rightarrow> if c = CHR ''-'' \<or> c = CHR ''+'' then r else t);
          groups = py_split body ''_''
      in if (\<forall>g \<in> set groups. g \<noteq> [] \<and> (\<forall>c \<in> set g. is_digit c))
         then (let n = foldl (\<lambda>acc c. 10 * acc + digit_val c) 0 (concat groups)
               in Inr (if neg then - n else n))
         else Inl ValueError)"

text \<open>
  \<open>xs[i]\<close> on a sequence: positions \<open>0 .. len-1\<close> from the front, \<open>-1 .. -len\<close> from
  the back, IndexError everywhere else.
\<close>

definition py_index :: "'a list \<Rightarrow> int \<Rightarrow> py_error + 'a" where
  "py_index xs i =
     (if 0 \<le> i \<and> i < int (length xs) then Inr (xs ! nat i)
      else if i < 0 \<and> - i \<le> int (length xs) then Inr (xs ! nat (int (length xs) + i))
      else Inl IndexError)"

subsection \<open>\<open>str\<close> and \<open>repr\<close>\<close>

fun dec_nat :: "nat \<Rightarrow> string" where
  "dec_nat n = (if n < 10 then [''0123456789'' ! n]
                else dec_nat (n div 10) @ [''0123456789'' ! (n mod 10)])"

definition dec_int :: "int \<Rightarrow> string" where
  "dec_int i = (if i < 0 then CHR ''-'' # dec_nat (nat (- i)) else dec_nat (nat i))"

definition hex2 :: "nat \<Rightarrow> string" where
  "hex2 n = [''0123456789abcdef'' ! ((n div 16) mod 16), ''0123456789abcdef'' ! (n mod 16)]"

definition repr_char :: "char \<Rightarrow> char \<Rightarrow> string" where
  "repr_char q c =
     (let n = (of_char c :: nat) in
      if c = CHR 0x5C then [CHR 0x5C, CHR 0x5C]
      else if c = q then [CHR 0x5C, q]
      else if c = CHR 0x09 then [CHR 0x5C, CHR ''t'']
      else if c = CHR 0x0A then [CHR 0x5C, CHR ''n'']
      else if c = CHR 0x0D then [CHR 0x5C, CHR ''r'']
      else if n < 32 \<or> n = 127 then [CHR 0x5C, CHR ''x''] @ hex2 n
      else [c])"

definition repr_str :: "string \<Rightarrow> string" where
  "repr_str s =
     (let q = (if CHR 0x27 \<in> set s \<and> CHR 0x22 \<notin> set s then CHR 0x22 else CHR 0x27)
      in [q] @ concat (map (repr_char q) s) @ [q])"

fun join :: "string \<Rightarrow> string list \<Rightarrow> string" where
  "join sep [] = []"
| "join sep [x] = x"
| "join sep (x # y # ys) = x @ sep @ join sep (y # ys)"

text \<open>
  \<open>repr\<close> of a value. Python prints \<open>[...]\<close> or \<open>{...}\<close> for a container that is
  already being printed; \<open>avail\<close> holds the addresses that are not being printed yet.
\<close>

function py_repr :: "heap \<Rightarrow> nat list \<Rightarrow> pyval \<Rightarrow> string" where
  "py_repr h avail PNone = ''None''"
| "py_repr h avail (PBool b) = (if b then ''True'' else ''False'')"
| "py_repr h avail (PInt i) = dec_int i"
| "py_repr h avail (PStr s) = repr_str s"
| "py_repr h avail (PRef a) =
     (if a \<in> set avail then
        (case deref h a of
           OList xs \<Rightarrow> ''['' @ join '', '' (map (py_repr h (removeAll a avail)) xs) @ '']''
         | ODict items \<Rightarrow>
             ''{'' @ join '', '' (map (\<lambda>kv. repr_str (fst kv) @ '': '' @
                                          py_repr h (removeAll a avail) (snd kv)) items) @ ''}'')
      else (case deref h a of OList xs \<Rightarrow> ''[...]'' | ODict items \<Rightarrow> ''{...}''))"
  by pat_completeness auto
termination
  by (relation "measure (\<lambda>(h, avail, v). length avail)") (auto simp: length_removeAll_less)

text \<open>\<open>str(v)\<close>, which an f-string applies to the value it formats.\<close>

definition py_str :: "heap \<Rightarrow> pyval \<Rightarrow> string" where
  "py_str h v = (case v of PStr s \<Rightarrow> s | _ \<Rightarrow> py_repr h [0..<length h] v)"

section \<open>Custom mappers\<close>

text \<open>
  A mapper takes the heap (only \<open>priority_from_severity\<close> reads it, to print a container)
  and the raw value. \<open>sev == 5\<close> holds of the integer 5 alone among the modelled values;
  \<open>state.upper()\<close> exists on strings only.
\<close>

definition severity_level :: "heap \<Rightarrow> pyval \<Rightarrow> py_error + pyval" where
  "severity_level h sev = Inr (if sev = PInt 5 then PStr ''CRITICAL'' else PStr ''WARNING'')"

definition uppercase_state :: "heap \<Rightarrow> pyval \<Rightarrow> py_error + pyval" where
  "uppercase_state h state = (case state of PStr s \<Rightarrow> Inr (PStr (py_upper s)) | _ \<Rightarrow> Inl AttributeError)"

definition priority_from_severity :: "heap \<Rightarrow> pyval \<Rightarrow> py_error + pyval" where
  "priority_from_severity h sev = Inr (PStr (''PRIORITY_'' @ py_str h sev))"

definition CUSTOM_FUNCTIONS :: "(string \<times> (heap \<Rightarrow> pyval \<Rightarrow> py_error + pyval)) list" where
  "CUSTOM_FUNCTIONS =
     [(''severity_level'', severity_level),
      (''uppercase_state'', uppercase_state),
      (''priority_from_severity'', priority_from_severity)]"

section \<open>The mapping resolver\<close>

definition bhom_mapping_reverse_lookup :: "string \<Rightarrow> string" where
  "bhom_mapping_reverse_lookup field =
     (case map_of [(''severity'', ''severity''),
                   (''status'', ''state''),
                   (''priority'', ''severity''),
                   (''class_slots.pn_severity'', ''severity'')] field of
        Some src \<Rightarrow> src | None \<Rightarrow> field)"

text \<open>\<open>val[key]\<close> with a string key.\<close>

definition subscript_key :: "heap \<Rightarrow> pyval \<Rightarrow> string \<Rightarrow> py_error + pyval" where
  "subscript_key h val key =
     (case val of
        PRef a \<Rightarrow> (case deref h a of
                     ODict items \<Rightarrow> (case map_of items key of None \<Rightarrow> Inl KeyError | Some v \<Rightarrow> Inr v)
                   | OList xs \<Rightarrow> Inl TypeError)
      | _ \<Rightarrow> Inl TypeError)"

text \<open>
  \<open>val[i]\<close> with an integer: an element of a list, a character of a string; a dictionary
  parsed from JSON has string keys only, so an integer is never one of its keys.
\<close>

definition subscript_int :: "heap \<Rightarrow> pyval \<Rightarrow> int \<Rightarrow> py_error + pyval" where
  "subscript_int h val i =
     (case val of
        PRef a \<Rightarrow> (case deref h a of
                     ODict items \<Rightarrow> Inl KeyError
                   | OList xs \<Rightarrow> py_index xs i)
      | PStr s \<Rightarrow> (case py_index s i of Inl e \<Rightarrow> Inl e | Inr c \<Rightarrow> Inr (PStr [c]))
      | _ \<Rightarrow> Inl TypeError)"

text \<open>
  The loop of \<open>get_nested_value\<close> over the parts of the path. In \<open>val[key][int(idx)]\<close>
  Python unpacks the split first, then evaluates \<open>val[key]\<close>, then \<open>int(idx)\<close>, then the
  second subscript.
\<close>

fun walk :: "heap \<Rightarrow> pyval \<Rightarrow> string list \<Rightarrow> py_error + pyval" where
  "walk h val [] = Inr val"
| "walk h val (part # parts) =
     (if CHR ''['' \<in> set part then
        (case py_split part ''['' of
           [key, idx] \<Rightarrow>
             (case subscript_key h val key of
                Inl e \<Rightarrow> Inl e
              | Inr v1 \<Rightarrow>
                  (case py_int idx of
                     Inl e \<Rightarrow> Inl e
                   | Inr i \<Rightarrow>
                       (case subscript_int h v1 i of
                          Inl e \<Rightarrow> Inl e
                        | Inr v2 \<Rightarrow> walk h v2 parts)))
         | _ \<Rightarrow> Inl ValueError)
      else
        (case subscript_key h val part of
           Inl e \<Rightarrow> Inl e
         | Inr v \<Rightarrow> walk h v parts))"

text \<open>
  \<open>get_nested_value\<close>: KeyError, IndexError and TypeError are caught and give \<open>None\<close>;
  any other exception leaves the function.
\<close>

definition get_nested_value :: "heap \<Rightarrow> pyval \<Rightarrow> string \<Rightarrow> py_error + pyval" where
  "get_nested_value h data key_path =
     (case walk h data (py_split (filter (\<lambda>c. c \<noteq> CHR '']'') key_path) ''.'') of
        Inr val \<Rightarrow> Inr val
      | Inl e \<Rightarrow> if e = KeyError \<or> e = IndexError \<or> e = TypeError then Inr PNone else Inl e)"

text \<open>\<open>d.setdefault(key, {})\<close>: only a dictionary has the method.\<close>

definition setdefault :: "heap \<Rightarrow> pyval \<Rightarrow> string \<Rightarrow> py_error + (pyval \<times> heap)" where
  "setdefault h d key =
     (case d of
        PRef a \<Rightarrow> (case deref h a of
                     ODict items \<Rightarrow>
                       (case map_of items key of
                          Some v \<Rightarrow> Inr (v, h)
                        | None \<Rightarrow> Inr (PRef (length h),
                                        h[a := ODict (items @ [(key, PRef (length h))])] @ [ODict []]))
                   | OList xs \<Rightarrow> Inl AttributeError)
      | _ \<Rightarrow> Inl AttributeError)"

text \<open>\<open>d[key] = value\<close> with a string key: a dictionary takes it, nothing else does.\<close>

definition setitem :: "heap \<Rightarrow> pyval \<Rightarrow> string \<Rightarrow> pyval \<Rightarrow> py_error + heap" where
  "setitem h d key v =
     (case d of
        PRef a \<Rightarrow> (case deref h a of
                     ODict items \<Rightarrow> Inr (h[a := ODict (AList.update key v items)])
                   | OList xs \<Rightarrow> Inl TypeError)
      | _ \<Rightarrow> Inl TypeError)"

fun descend :: "heap \<Rightarrow> pyval \<Rightarrow> string list \<Rightarrow> py_error + (pyval \<times> heap)" where
  "descend h d [] = Inr (d, h)"
| "descend h d (key # keys) =
     (case setdefault h d key of
        Inl e \<Rightarrow> Inl e
      | Inr (d', h') \<Rightarrow> descend h' d' keys)"

definition insert_nested_key :: "heap \<Rightarrow> pyval \<Rightarrow> string \<Rightarrow> pyval \<Rightarrow> py_error + heap" where
  "insert_nested_key h d dotted_key v =
     (let keys = py_split dotted_key ''.'' in
      case descend h d (butlast keys) of
        Inl e \<Rightarrow> Inl e
      | Inr (d', h') \<Rightarrow> setitem h' d' (last keys) v)"

text \<open>
  \<open>next((get_nested_value(event_data, key.strip()) for key in keys
          if get_nested_value(event_data, key.strip()) is not None), "")\<close>:
  the keys after the first hit are not looked at.
\<close>

fun first_present :: "heap \<Rightarrow> pyval \<Rightarrow> string list \<Rightarrow> py_error + pyval" where
  "first_present h event_data [] = Inr (PStr [])"
| "first_present h event_data (key # keys) =
     (case get_nested_value h event_data (py_strip key) of
        Inl e \<Rightarrow> Inl e
      | Inr v \<Rightarrow> if v \<noteq> PNone then get_nested_value h event_data (py_strip key)
                 else first_present h event_data keys)"

text \<open>\<open>s.split(sep)[1]\<close>.\<close>

definition split_second :: "string \<Rightarrow> string \<Rightarrow> py_error + string" where
  "split_second s sep = (case py_split s sep of _ # x # _ \<Rightarrow> Inr x | _ \<Rightarrow> Inl IndexError)"

text \<open>The \<open>if\<close>/\<open>elif\<close> chain of \<open>resolve_bhom_mapping\<close> that computes \<open>value\<close> for one rule.\<close>

definition rule_value :: "heap \<Rightarrow> pyval \<Rightarrow> string \<Rightarrow> string \<Rightarrow> py_error + pyval" where
  "rule_value h event_data bhom_field rule =
     (if startswith rule ''static:'' then
        (case split_second rule ''static:'' of Inl e \<Rightarrow> Inl e | Inr x \<Rightarrow> Inr (PStr x))
      else if startswith rule ''event_data:'' then
        (case split_second rule ''event_data:'' of
           Inl e \<Rightarrow> Inl e
         | Inr x \<Rightarrow> first_present h event_data (py_split x ''|''))
      else if startswith rule ''func:'' then
        (case split_second rule ''func:'' of
           Inl e \<Rightarrow> Inl e
         | Inr x \<Rightarrow>
             (let func_name = py_strip x;
                  source_key = bhom_mapping_reverse_lookup bhom_field
              in case get_nested_value h event_data source_key of
                   Inl e \<Rightarrow> Inl e
                 | Inr raw_value \<Rightarrow>
                     (case map_of CUSTOM_FUNCTIONS func_name of
                        Some f \<Rightarrow> f h raw_value
                      | None \<Rightarrow> Inr (PStr []))))
      else Inr (PStr []))"

text \<open>The loop over \<open>mapping_config.items()\<close>; \<open>payload\<close> is the dictionary being filled.\<close>

fun resolve_loop :: "heap \<Rightarrow> pyval \<Rightarrow> pyval \<Rightarrow> (string \<times> string) list \<Rightarrow> py_error + heap" where
  "resolve_loop h event_data payload [] = Inr h"
| "resolve_loop h event_data payload ((bhom_field, rule) # rest) =
     (case rule_value h event_data bhom_field rule of
        Inl e \<Rightarrow> Inl e
      | Inr v \<Rightarrow>
          (case insert_nested_key h payload bhom_field v of
             Inl e \<Rightarrow> Inl e
           | Inr h' \<Rightarrow> resolve_loop h' event_data payload rest))"

text \<open>
  \<open>resolve_bhom_mapping\<close> returns the one-element list \<open>[payload]\<close>, here with the heap
  that holds the payload. The rules of a mapping are strings, as the specification's
  data model has them.
\<close>

definition resolve_bhom_mapping ::
  "heap \<Rightarrow> pyval \<Rightarrow> (string \<times> string) list \<Rightarrow> py_error + (pyval list \<times> heap)" where
  "resolve_bhom_mapping h event_data mapping_config =
     (case alloc h (ODict []) of (p, h0) \<Rightarrow>
        (case resolve_loop h0 event_data (PRef p) mapping_config of
           Inl e \<Rightarrow> Inl e
         | Inr h' \<Rightarrow> Inr ([PRef p], h')))"

section \<open>The credential refresh guard\<close>

text \<open>A key of a parsed JSON object: the last occurrence counts.\<close>

definition jget :: "(string \<times> json) list \<Rightarrow> string \<Rightarrow> json option" where
  "jget kvs k = map_of (rev kvs) k"

text \<open>
  The token file as \<open>get_valid_refresh_token\<close> distinguishes it: missing or empty; not
  JSON (\<open>json.load\<close> raises JSONDecodeError); JSON that is not an object (\<open>data.get\<close>
  raises AttributeError); or an object. Of an object the model keeps the \<open>time\<close> field as
  \<open>strptime\<close> reads it and the other fields as they are.
\<close>

datatype time_field =
    TimeAbsent          \<comment> \<open>no \<open>time\<close> key: \<open>strptime("")\<close> raises ValueError\<close>
  | TimeNotString       \<comment> \<open>\<open>strptime\<close> raises TypeError\<close>
  | TimeBadFormat       \<comment> \<open>\<open>strptime\<close> raises ValueError\<close>
  | TimeAt int          \<comment> \<open>a time in the format \<open>%Y-%m-%d %H:%M:%S\<close>, in seconds\<close>

datatype token_file = NoFile | NotJson | NotDict | Doc time_field "(string \<times> json) list"

record token_store =
  persisted :: token_file
  refresh_calls :: nat

text \<open>What the refresh endpoint answers: a failure (no connection, an HTTP error status,
  a body that is not a JSON object), or the value of \<open>json_web_token\<close> in the answer
  (\<open>JNull\<close> when the key is missing).\<close>

datatype refresh_reply = RefreshFails | RefreshToken json

text \<open>Python's truth value of a JSON value.\<close>

fun truthy :: "json \<Rightarrow> bool" where
  "truthy JNull = False"
| "truthy (JBool b) = b"
| "truthy (JNum n) = (n \<noteq> 0)"
| "truthy (JStr s) = (s \<noteq> [])"
| "truthy (JArr xs) = (xs \<noteq> [])"
| "truthy (JObj kvs) = (kvs \<noteq> [])"

text \<open>
  Times are in microseconds, as \<open>datetime.now()\<close> has them; \<open>strftime\<close> keeps the whole
  seconds. \<open>_create_new_refresh_token\<close> turns every exception into a RuntimeError.
\<close>

definition create_new_refresh_token ::
  "refresh_reply \<Rightarrow> int \<Rightarrow> token_store \<Rightarrow> (py_error + json) \<times> token_store" where
  "create_new_refresh_token reply now ts =
     (let ts' = ts\<lparr>refresh_calls := refresh_calls ts + 1\<rparr> in
      case reply of
        RefreshFails \<Rightarrow> (Inl RuntimeError, ts')
      | RefreshToken new_token \<Rightarrow>
          if \<not> truthy new_token then (Inl RuntimeError, ts')
          else (Inr new_token,
                ts'\<lparr>persisted := Doc (TimeAt (now div 1000000)) [(''refresh_token'', new_token)]\<rparr>))"

text \<open>
  \<open>diff_minutes > 10\<close> with \<open>diff_minutes = total_seconds() / 60\<close>: more than 600 seconds.
\<close>

definition get_valid_refresh_token ::
  "refresh_reply \<Rightarrow> int \<Rightarrow> token_store \<Rightarrow> (py_error + json) \<times> token_store" where
  "get_valid_refresh_token reply now ts =
     (case persisted ts of
        NoFile \<Rightarrow> create_new_refresh_token reply now ts
      | NotJson \<Rightarrow> create_new_refresh_token reply now ts
      | NotDict \<Rightarrow> (Inl RuntimeError, ts)
      | Doc tf entries \<Rightarrow>
          (case tf of
             TimeAbsent \<Rightarrow> create_new_refresh_token reply now ts
           | TimeBadFormat \<Rightarrow> create_new_refresh_token reply now ts
           | TimeNotString \<Rightarrow> (Inl RuntimeError, ts)
           | TimeAt last_time \<Rightarrow>
               if now - last_time * 1000000 > 600 * 1000000
               then create_new_refresh_token reply now ts
               else (case jget entries ''json_web_token'' of
                       Some tok \<Rightarrow> (Inr tok, ts)
                     | None \<Rightarrow> create_new_refresh_token reply now ts)))"

section \<open>The event store\<close>

datatype status = RECEIVED | CREATED | FAILED

text \<open>
  A row of \<open>instana_events\<close>. \<open>event_id\<close> is \<open>TEXT UNIQUE\<close> and may be NULL (\<open>None\<close>);
  NULL is equal to nothing, itself included. The serial \<open>id\<close> and the two timestamps
  are not modelled.
\<close>

record row =
  event_id :: "string option"
  event_json :: json
  status :: status

type_synonym db = "row list"

text \<open>\<open>INSERT ... ON CONFLICT (event_id) DO NOTHING\<close> of one row.\<close>

definition insert_do_nothing :: "string option \<times> json \<times> status \<Rightarrow> db \<Rightarrow> db" where
  "insert_do_nothing r d =
     (case r of (eid, js, st) \<Rightarrow>
        if eid \<noteq> None \<and> eid \<in> set (map event_id d) then d
        else d @ [\<lparr>event_id = eid, event_json = js, status = st\<rparr>])"

text \<open>\<open>execute_values\<close> with that statement: the rows one after the other.\<close>

definition execute_values :: "(string option \<times> json \<times> status) list \<Rightarrow> db \<Rightarrow> db" where
  "execute_values rows d = foldl (\<lambda>d' r. insert_do_nothing r d') d rows"

text \<open>\<open>UPDATE instana_events SET status=... WHERE event_id=%s\<close> for one id, and
  \<open>executemany\<close> over the ids of a batch.\<close>

definition update_status :: "status \<Rightarrow> string option \<Rightarrow> db \<Rightarrow> db" where
  "update_status st eid d =
     map (\<lambda>r. if eid \<noteq> None \<and> event_id r = eid then r\<lparr>status := st\<rparr> else r) d"

definition executemany_update :: "status \<Rightarrow> string option list \<Rightarrow> db \<Rightarrow> db" where
  "executemany_update st ids d = foldl (\<lambda>d' eid. update_status st eid d') d ids"

text \<open>\<open>SELECT event_id, event_json ... WHERE status in ('RECEIVED','FAILED')\<close>, in the
  order of the table.\<close>

definition select_pending :: "db \<Rightarrow> (string option \<times> json) list" where
  "select_pending d =
     map (\<lambda>r. (event_id r, event_json r))
         (filter (\<lambda>r. status r = RECEIVED \<or> status r = FAILED) d)"

section \<open>Ingestion\<close>

text \<open>\<open>ev["state"] == "open"\<close>: \<open>ev\<close> must be an object that has the key.\<close>

definition is_open :: "json \<Rightarrow> py_error + bool" where
  "is_open ev =
     (case ev of
        JObj kvs \<Rightarrow> (case jget kvs ''state'' of
                       None \<Rightarrow> Inl KeyError
                     | Some v \<Rightarrow> Inr (v = JStr ''open''))
      | _ \<Rightarrow> Inl TypeError)"

fun open_events :: "json list \<Rightarrow> py_error + json list" where
  "open_events [] = Inr []"
| "open_events (ev # evs) =
     (case is_open ev of
        Inl e \<Rightarrow> Inl e
      | Inr b \<Rightarrow> (case open_events evs of
                    Inl e \<Rightarrow> Inl e
                  | Inr r \<Rightarrow> Inr (if b then ev # r else r)))"

text \<open>
  \<open>event.get("eventId")\<close> as the value of the TEXT column: a string is itself, a missing
  key or a JSON null is NULL. An id of any other JSON type is outside the data model; the
  model lets the insertion fail on it.
\<close>

definition event_id_value :: "json \<Rightarrow> py_error + string option" where
  "event_id_value ev =
     (case ev of
        JObj kvs \<Rightarrow> (case jget kvs ''eventId'' of
                       None \<Rightarrow> Inr None
                     | Some JNull \<Rightarrow> Inr None
                     | Some (JStr s) \<Rightarrow> Inr (Some s)
                     | Some _ \<Rightarrow> Inl TypeError)
      | _ \<Rightarrow> Inl AttributeError)"

fun open_events_data :: "json list \<Rightarrow> py_error + (string option \<times> json \<times> status) list" where
  "open_events_data [] = Inr []"
| "open_events_data (ev # evs) =
     (case event_id_value ev of
        Inl e \<Rightarrow> Inl e
      | Inr eid \<Rightarrow> (case open_events_data evs of
                      Inl e \<Rightarrow> Inl e
                    | Inr r \<Rightarrow> Inr ((eid, ev, RECEIVED) # r)))"

text \<open>What the source API answers: a failure (no connection, an HTTP error status, a
  body that is not JSON), or the parsed body.\<close>

datatype fetch_reply = FetchFails | FetchBody json

text \<open>
  \<open>fetch_instana_events\<close>: every exception is caught and logged, and nothing is committed
  then. Iterating anything but a list of objects raises on the first element (a string
  or an object yields strings, which have no key \<open>state\<close>); a number, a boolean or null
  has no length.
\<close>

definition fetch_instana_events :: "fetch_reply \<Rightarrow> db \<Rightarrow> db" where
  "fetch_instana_events reply d =
     (case reply of
        FetchFails \<Rightarrow> d
      | FetchBody (JArr events) \<Rightarrow>
          (case open_events events of
             Inl e \<Rightarrow> d
           | Inr evs \<Rightarrow> (case open_events_data evs of
                          Inl e \<Rightarrow> d
                        | Inr rows \<Rightarrow> execute_values rows d))
      | FetchBody _ \<Rightarrow> d)"

section \<open>The batch synchronization pipeline\<close>

text \<open>
  The configuration is taken as complete (every key the code reads is there), and the
  database as working: connecting, executing and committing do not raise. What the
  downstream and the refresh endpoint answer is a parameter of the model.
\<close>

text \<open>\<open>resolve_bhom_mapping(ev_json, bhom_config)[0]\<close> on one row: the JSONB value is
  parsed into objects of its own.\<close>

definition resolve_event :: "(string \<times> string) list \<Rightarrow> json \<Rightarrow> py_error + (pyval \<times> heap)" where
  "resolve_event bhom_config ev_json =
     (case load ev_json [] of (ev, h) \<Rightarrow>
        (case resolve_bhom_mapping h ev bhom_config of
           Inl e \<Rightarrow> Inl e
         | Inr (ps, h') \<Rightarrow> (case ps of [] \<Rightarrow> Inl IndexError | p # _ \<Rightarrow> Inr (p, h'))))"

fun batch_payload :: "(string \<times> string) list \<Rightarrow> (string option \<times> json) list
    \<Rightarrow> py_error + (pyval \<times> heap) list" where
  "batch_payload bhom_config [] = Inr []"
| "batch_payload bhom_config ((ev_id, ev_json) # rest) =
     (case resolve_event bhom_config ev_json of
        Inl e \<Rightarrow> Inl e
      | Inr p \<Rightarrow> (case batch_payload bhom_config rest of
                    Inl e \<Rightarrow> Inl e
                  | Inr ps \<Rightarrow> Inr (p # ps)))"

text \<open>What \<open>requests.post\<close> gives: an exception, or a response with a status code and a
  body (\<open>None\<close>: the body is not JSON, \<open>response.json()\<close> raises).\<close>

datatype post_reply = PostRaises | Response int "json option"

text \<open>\<open>len(x)\<close> of a parsed JSON value; a number, a boolean and null have none.\<close>

definition py_len :: "json \<Rightarrow> nat option" where
  "py_len x =
     (case x of
        JArr xs \<Rightarrow> Some (length xs)
      | JObj kvs \<Rightarrow> Some (length (remdups (map fst kvs)))
      | JStr s \<Rightarrow> Some (length s)
      | _ \<Rightarrow> None)"

text \<open>\<open>len(resp_json.get("resourceId", []))\<close>; \<open>None\<close> when one of the steps raises.\<close>

definition resource_count :: "json option \<Rightarrow> nat option" where
  "resource_count body =
     (case body of
        Some (JObj kvs) \<Rightarrow> (case jget kvs ''resourceId'' of None \<Rightarrow> Some 0 | Some x \<Rightarrow> py_len x)
      | _ \<Rightarrow> None)"

text \<open>The connection: what is committed, and what the open transaction sees.\<close>

record session =
  durable :: db
  pending :: db

definition execute_update :: "status \<Rightarrow> string option list \<Rightarrow> session \<Rightarrow> session" where
  "execute_update st ids s = s\<lparr>pending := executemany_update st ids (pending s)\<rparr>"

definition commit :: "session \<Rightarrow> session" where
  "commit s = s\<lparr>durable := pending s\<rparr>"

text \<open>
  The \<open>try\<close> statement of the loop body: the update that the response selects. Every
  exception inside it ends in the \<open>except\<close> branch.
\<close>

definition reconcile :: "post_reply \<Rightarrow> nat \<Rightarrow> status" where
  "reconcile reply batch_len =
     (case reply of
        PostRaises \<Rightarrow> FAILED
      | Response status_code body \<Rightarrow>
          if status_code = 200 then
            (case resource_count body of
               None \<Rightarrow> FAILED
             | Some n \<Rightarrow> if n \<noteq> batch_len then FAILED else CREATED)
          else FAILED)"

text \<open>
  The body of the loop for one batch; \<open>i\<close> counts the requests, so that the downstream
  may answer each one differently. The payloads are built before the \<open>try\<close>: an
  exception of the resolver leaves the loop, with nothing of this batch written.
\<close>

definition process_batch ::
  "(string \<times> string) list \<Rightarrow> (json \<Rightarrow> nat \<Rightarrow> (pyval \<times> heap) list \<Rightarrow> post_reply) \<Rightarrow> json \<Rightarrow> nat
    \<Rightarrow> (string option \<times> json) list \<Rightarrow> session \<Rightarrow> py_error option \<times> session" where
  "process_batch bhom_config post token i batch s =
     (case batch_payload bhom_config batch of
        Inl e \<Rightarrow> (Some e, s)
      | Inr payloads \<Rightarrow>
          (let event_ids = map fst batch;
               st = reconcile (post token i payloads) (length batch)
           in (None, commit (execute_update st event_ids s))))"

text \<open>\<open>for i in range(0, len(events), batch_size)\<close> with \<open>batch = events[i:i + batch_size]\<close>.\<close>

function batch_loop ::
  "(string \<times> string) list \<Rightarrow> (json \<Rightarrow> nat \<Rightarrow> (pyval \<times> heap) list \<Rightarrow> post_reply) \<Rightarrow> json \<Rightarrow> nat
    \<Rightarrow> nat \<Rightarrow> (string option \<times> json) list \<Rightarrow> session \<Rightarrow> py_error option \<times> session" where
  "batch_loop bhom_config post token batch_size i events s =
     (if events = [] \<or> batch_size = 0 then (None, s)
      else (case process_batch bhom_config post token i (take batch_size events) s of
              (Some e, s') \<Rightarrow> (Some e, s')
            | (None, s') \<Rightarrow>
                batch_loop bhom_config post token batch_size (Suc i) (drop batch_size events) s'))"
  by pat_completeness auto
termination
  by (relation "measure (\<lambda>(c, p, t, b, i, events, s). length events)") auto

declare batch_loop.simps [simp del]

text \<open>
  \<open>process_events_in_batches\<close>: the token first, then the connection and the loop. The
  result is the exception that left the function, if any, with the token store and the
  committed table. \<open>range\<close> with step 0 raises ValueError.
\<close>

definition process_events_in_batches ::
  "(string \<times> string) list \<Rightarrow> refresh_reply \<Rightarrow> int
    \<Rightarrow> (json \<Rightarrow> nat \<Rightarrow> (pyval \<times> heap) list \<Rightarrow> post_reply) \<Rightarrow> nat
    \<Rightarrow> (string option \<times> json) list \<Rightarrow> token_store \<times> db \<Rightarrow> py_error option \<times> token_store \<times> db" where
  "process_events_in_batches bhom_config refresh now post batch_size events w =
     (case w of (ts, d) \<Rightarrow>
        (case get_valid_refresh_token refresh now ts of
           (Inl e, ts') \<Rightarrow> (Some e, ts', d)
         | (Inr refresh_token, ts') \<Rightarrow>
             if batch_size = 0 then (Some ValueError, ts', d)
             else (case batch_loop bhom_config post refresh_token batch_size 0 events
                          \<lparr>durable = d, pending = d\<rparr> of
                     (err, s) \<Rightarrow> (err, ts', durable s))))"

text \<open>\<open>process_all_events\<close> calls with the default \<open>batch_size=8500\<close>.\<close>

definition process_all_events ::
  "(string \<times> string) list \<Rightarrow> refresh_reply \<Rightarrow> int
    \<Rightarrow> (json \<Rightarrow> nat \<Rightarrow> (pyval \<times> heap) list \<Rightarrow> post_reply)
    \<Rightarrow> token_store \<times> db \<Rightarrow> py_error option \<times> token_store \<times> db" where
  "process_all_events bhom_config refresh now post w =
     (let rows = select_pending (snd w) in
      if rows \<noteq> [] then process_events_in_batches bhom_config refresh now post 8500 rows w
      else (None, w))"

text \<open>
  \<open>run_pipeline\<close> (and \<open>main\<close> of the script): \<open>init_db\<close> leaves an existing table as it
  is, then the fetch, then the processing.
\<close>

definition run_pipeline ::
  "(string \<times> string) list \<Rightarrow> fetch_reply \<Rightarrow> refresh_reply \<Rightarrow> int
    \<Rightarrow> (json \<Rightarrow> nat \<Rightarrow> (pyval \<times> heap) list \<Rightarrow> post_reply)
    \<Rightarrow> token_store \<times> db \<Rightarrow> py_error option \<times> token_store \<times> db" where
  "run_pipeline bhom_config fetch refresh now post w =
     process_all_events bhom_config refresh now post (fst w, fetch_instana_events fetch (snd w))"

text \<open>The timer trigger's \<open>main\<close> catches and logs whatever \<open>run_pipeline\<close> raises.\<close>

definition timer_main ::
  "(string \<times> string) list \<Rightarrow> fetch_reply \<Rightarrow> refresh_reply \<Rightarrow> int
    \<Rightarrow> (json \<Rightarrow> nat \<Rightarrow> (pyval \<times> heap) list \<Rightarrow> post_reply)
    \<Rightarrow> token_store \<times> db \<Rightarrow> token_store \<times> db" where
  "timer_main bhom_config fetch refresh now post w =
     snd (run_pipeline bhom_config fetch refresh now post w)"

section \<open>Notions of the specification\<close>

text \<open>
  ``Every event of the batch is marked \<open>st\<close>'': the table \<open>d'\<close> has the rows of \<open>d\<close>, each
  with its id and its payload; a row whose id is one of the batch's has status \<open>st\<close>,
  every other row has the status it had. Rows are addressed by \<open>event_id\<close>, so a row
  without one belongs to no batch in this sense.
\<close>

definition batch_marked :: "status \<Rightarrow> string option list \<Rightarrow> db \<Rightarrow> db \<Rightarrow> bool" where
  "batch_marked st ids d d' =
     list_all2 (\<lambda>r r'. event_id r' = event_id r \<and> event_json r' = event_json r \<and>
                        status r' = (if event_id r \<noteq> None \<and> event_id r \<in> set ids
                                     then st else status r)) d d'"

text \<open>
  The UNIQUE constraint on \<open>event_id\<close>: no two rows share an id; NULL ids do not count.
\<close>

definition unique_ids :: "db \<Rightarrow> bool" where
  "unique_ids d = distinct (filter (\<lambda>i. i \<noteq> None) (map event_id d))"


text \<open>The row that an insertion adds.\<close>

definition new_row :: "string option \<times> json \<times> status \<Rightarrow> row" where
  "new_row r = (case r of (eid, js, st) \<Rightarrow> \<lparr>event_id = eid, event_json = js, status = st\<rparr>)"

text \<open>
  \<open>d'\<close> has the rows of \<open>d\<close>, and only rows with one of the given ids may have another
  status.
\<close>

definition kept :: "string option list \<Rightarrow> db \<Rightarrow> db \<Rightarrow> bool" where
  "kept ids d d' =
     list_all2 (\<lambda>r r'. event_id r' = event_id r \<and> event_json r' = event_json r \<and>
                        (status r' = status r \<or> event_id r \<noteq> None \<and> event_id r \<in> set ids)) d d'"

text \<open>CREATED is terminal: the rows are the same, and a CREATED row is still CREATED.\<close>

definition created_rows_kept :: "db \<Rightarrow> db \<Rightarrow> bool" where
  "created_rows_kept d d' =
     list_all2 (\<lambda>r r'. event_id r' = event_id r \<and> event_json r' = event_json r \<and>
                        (status r = CREATED \<longrightarrow> status r' = CREATED)) d d'"

text \<open>Every row that has an id is CREATED; the rows are the same otherwise.\<close>

definition all_delivered :: "db \<Rightarrow> db \<Rightarrow> bool" where
  "all_delivered d d' =
     list_all2 (\<lambda>r r'. event_id r' = event_id r \<and> event_json r' = event_json r \<and>
                        status r' = (if event_id r = None then status r else CREATED)) d d'"

text \<open>Python's \<open>sep in s\<close>: the text \<open>sep\<close> occurs in \<open>s\<close>.\<close>

fun occurs :: "string \<Rightarrow> string \<Rightarrow> bool" where
  "occurs sep [] = (sep = [])"
| "occurs sep (c # cs) = (startswith (c # cs) sep \<or> occurs sep cs)"

text \<open>
  The source-path syntax: dot-separated segments, and a segment with a bracket has one
  bracket, with an integer that \<open>int\<close> reads. (The closing brackets are dropped before
  the path is split.)
\<close>

definition part_ok :: "string \<Rightarrow> bool" where
  "part_ok part =
     (CHR ''['' \<notin> set part \<or>
      (case py_split part ''['' of
         [key, idx] \<Rightarrow> (case py_int idx of Inl e \<Rightarrow> False | Inr i \<Rightarrow> True)
       | _ \<Rightarrow> False))"

definition path_ok :: "string \<Rightarrow> bool" where
  "path_ok p = list_all part_ok (py_split (filter (\<lambda>c. c \<noteq> CHR '']'') p) ''.'')"

text \<open>The soft lookup: the value at the path, \<open>None\<close> when there is none.\<close>

definition looked_up :: "heap \<Rightarrow> pyval \<Rightarrow> string \<Rightarrow> pyval" where
  "looked_up h data p = (case get_nested_value h data p of Inl e \<Rightarrow> PNone | Inr v \<Rightarrow> v)"

text \<open>
  The fallback chain of the specification: the first of the looked-up values that is
  present and not null, the empty string when there is none.
\<close>

definition first_non_null :: "pyval list \<Rightarrow> pyval" where
  "first_non_null vs = (case filter (\<lambda>v. v \<noteq> PNone) vs of [] \<Rightarrow> PStr [] | v # _ \<Rightarrow> v)"

text \<open>
  The value of a document at a path of keys: \<open>dict_path h doc keys = Some v\<close> says that
  every key of the path is present, one dictionary inside the other, and the last one
  holds \<open>v\<close>.
\<close>

fun dict_path :: "heap \<Rightarrow> pyval \<Rightarrow> string list \<Rightarrow> pyval option" where
  "dict_path h v [] = Some v"
| "dict_path h v (k # ks) =
     (case v of
        PRef a \<Rightarrow> (case deref h a of
                     ODict items \<Rightarrow> (case map_of items k of
                                       None \<Rightarrow> None
                                     | Some v' \<Rightarrow> dict_path h v' ks)
                   | OList xs \<Rightarrow> None)
      | _ \<Rightarrow> None)"

section \<open>Example data\<close>

definition cfg3 :: "(string \<times> string) list" where
  "cfg3 = [(''severity'', ''func:severity_level'')]"

definition ev3 :: "string \<Rightarrow> int \<Rightarrow> json" where
  "ev3 e sev = JObj [(''eventId'', JStr e), (''state'', JStr ''open''), (''severity'', JNum sev)]"

definition batch3 :: "(string option \<times> json) list" where
  "batch3 = [(Some ''e1'', ev3 ''e1'' 5), (Some ''e2'', ev3 ''e2'' 3), (Some ''e3'', ev3 ''e3'' 5)]"

definition db3 :: "status \<Rightarrow> status \<Rightarrow> status \<Rightarrow> db" where
  "db3 s1 s2 s3 =
     [\<lparr>event_id = Some ''e1'', event_json = ev3 ''e1'' 5, status = s1\<rparr>,
      \<lparr>event_id = Some ''e2'', event_json = ev3 ''e2'' 3, status = s2\<rparr>,
      \<lparr>event_id = Some ''e3'', event_json = ev3 ''e3'' 5, status = s3\<rparr>]"

definition payload3 :: "string \<Rightarrow> int \<Rightarrow> string \<Rightarrow> pyval \<times> heap" where
  "payload3 e sev lvl =
     (PRef 1, [ODict [(''eventId'', PStr e), (''state'', PStr ''open''), (''severity'', PInt sev)],
               ODict [(''severity'', PStr lvl)]])"

text \<open>A downstream answer that lists \<open>n\<close> created resources.\<close>

definition created :: "nat \<Rightarrow> json option" where
  "created n = Some (JObj [(''resourceId'', JArr (replicate n (JStr ''r'')))])"

text \<open>A downstream that raises on the first request and accepts one event afterwards.\<close>

definition post5 :: "json \<Rightarrow> nat \<Rightarrow> (pyval \<times> heap) list \<Rightarrow> post_reply" where
  "post5 t i p = (if i = 0 then PostRaises else Response 200 (created 1))"

definition session3 :: "status \<Rightarrow> status \<Rightarrow> status \<Rightarrow> session" where
  "session3 s1 s2 s3 = \<lparr>durable = db3 s1 s2 s3, pending = db3 s1 s2 s3\<rparr>"

text \<open>A mapping with a transform on a field that events need not have.\<close>

definition cfg1 :: "(string \<times> string) list" where
  "cfg1 = [(''summary'', ''func:uppercase_state'')]"

definition ev1 :: "string \<Rightarrow> (string \<times> json) list \<Rightarrow> json" where
  "ev1 e extra = JObj ([(''eventId'', JStr e), (''state'', JStr ''open'')] @ extra)"

definition db1 :: db where
  "db1 = [\<lparr>event_id = Some ''e1'', event_json = ev1 ''e1'' [], status = RECEIVED\<rparr>,
          \<lparr>event_id = Some ''e2'', event_json = ev1 ''e2'' [(''summary'', JStr ''disk full'')],
            status = RECEIVED\<rparr>]"

text \<open>A token file that holds a usable token, written at time 0.\<close>

definition fresh_store :: token_store where
  "fresh_store = \<lparr>persisted = Doc (TimeAt 0) [(''json_web_token'', JStr ''tok'')], refresh_calls = 0\<rparr>"

text \<open>A downstream that creates every resource it is sent.\<close>

definition accept_all :: "json \<Rightarrow> nat \<Rightarrow> (pyval \<times> heap) list \<Rightarrow> post_reply" where
  "accept_all t i p = Response 200 (created (length p))"

text \<open>Two parsed events: one with \<open>a.b\<close> null and \<open>c.d = "x"\<close>, one with neither.\<close>

definition doc6 :: "pyval \<times> heap" where
  "doc6 = load (JObj [(''a'', JObj [(''b'', JNull)]), (''c'', JObj [(''d'', JStr ''x'')])]) []"

definition doc0 :: "pyval \<times> heap" where
  "doc0 = load (JObj [(''eventId'', JStr ''e1''), (''state'', JStr ''open'')]) []"

section \<open>Properties\<close>

subsection \<open>Status updates of a batch\<close>

lemma update_status_twice:
  "map (\<lambda>r. if event_id r \<noteq> None \<and> event_id r \<in> set ids then r\<lparr>status := st\<rparr> else r)
       (update_status st eid d)
   = map (\<lambda>r. if event_id r \<noteq> None \<and> event_id r \<in> set (eid # ids) then r\<lparr>status := st\<rparr> else r) d"
  by (auto simp: update_status_def)

lemma executemany_update_map:
  "executemany_update st ids d =
     map (\<lambda>r. if event_id r \<noteq> None \<and> event_id r \<in> set ids then r\<lparr>status := st\<rparr> else r) d"
  unfolding executemany_update_def
proof (induction ids arbitrary: d)
  case Nil
  show ?case by (simp add: map_idI)
next
  case (Cons eid ids)
  show ?case using update_status_twice[of ids st eid d] by (simp add: Cons.IH)
qed

lemma executemany_update_marked: "batch_marked st ids d (executemany_update st ids d)"
  by (simp add: executemany_update_map batch_marked_def list_all2_map2 list_all2_same)

lemma process_batch_submitted:
  assumes "batch_payload cfg batch = Inr payloads"
  shows "process_batch cfg post token i batch s =
           (None, \<lparr>durable = executemany_update (reconcile (post token i payloads) (length batch))
                               (map fst batch) (pending s),
                   pending = executemany_update (reconcile (post token i payloads) (length batch))
                               (map fst batch) (pending s)\<rparr>)"
  using assms by (simp add: process_batch_def commit_def execute_update_def Let_def)

lemma batch3_payload:
  "batch_payload cfg3 batch3 =
     Inr [payload3 ''e1'' 5 ''CRITICAL'', payload3 ''e2'' 3 ''WARNING'', payload3 ''e3'' 5 ''CRITICAL'']"
  by code_simp

lemma batch3_marked:
  "batch_marked st (map fst batch3) (db3 s1 s2 s3) d \<Longrightarrow> d = db3 st st st"
  by (auto simp: batch_marked_def batch3_def db3_def list_all2_Cons1)



text \<open>
  C10. A batch that was submitted and answered with a status code other than 200: every
  event of the batch is FAILED, whatever the body says; 201 with a matching count is no
  exception.
\<close>

theorem only_status_200_is_success:
  assumes "batch_payload cfg batch = Inr payloads"
    and "post token i payloads = Response code body"
    and "code \<noteq> 200"
  shows "\<exists>s'. process_batch cfg post token i batch s = (None, s') \<and>
           batch_marked FAILED (map fst batch) (pending s) (durable s')"
proof -
  have r: "reconcile (post token i payloads) (length batch) = FAILED"
    using assms(2,3) by (simp add: reconcile_def)
  show ?thesis
    unfolding process_batch_submitted[OF assms(1)] r
    by (simp add: executemany_update_marked)
qed

text \<open>Status 201 with three resources reported for three events: all three are FAILED.\<close>

theorem only_status_200_is_success_witness:
  "resource_count (created 3) = Some (length batch3) \<and>
   (\<exists>s'. process_batch cfg3 (\<lambda>t i p. Response 201 (created 3)) (JStr ''tok'') 0 batch3
            \<lparr>durable = db3 RECEIVED FAILED RECEIVED, pending = db3 RECEIVED FAILED RECEIVED\<rparr>
          = (None, s') \<and>
        durable s' = db3 FAILED FAILED FAILED)"
proof -
  have c: "resource_count (created 3) = Some (length batch3)" by code_simp
  have n: "(201::int) \<noteq> 200" by simp
  show ?thesis
    using only_status_200_is_success[OF batch3_payload _ n,
        of "\<lambda>t i p. Response 201 (created 3)" "JStr ''tok''" 0 "created 3"
           "\<lparr>durable = db3 RECEIVED FAILED RECEIVED, pending = db3 RECEIVED FAILED RECEIVED\<rparr>"]
      c batch3_marked[of FAILED RECEIVED FAILED RECEIVED]
    by auto
qed

text \<open>
  C5. A batch whose submission raises, or is answered with a status code other than 200,
  or whose answer cannot be read (an exception inside the \<open>try\<close>): the batch step returns
  without an exception, every event of the batch is FAILED, the updates are committed
  (nothing is left pending), and the loop goes on with the next batch from that
  committed state.
\<close>

theorem failed_submission_marks_batch_and_continues:
  assumes "events \<noteq> []" and "0 < batch_size"
    and "batch_payload cfg (take batch_size events) = Inr payloads"
    and "post token i payloads = PostRaises \<or>
         (\<exists>code body. post token i payloads = Response code body \<and>
                       (code \<noteq> 200 \<or> resource_count body = None))"
  shows "\<exists>s'. process_batch cfg post token i (take batch_size events) s = (None, s') \<and>
           batch_marked FAILED (map fst (take batch_size events)) (pending s) (durable s') \<and>
           durable s' = pending s' \<and>
           batch_loop cfg post token batch_size i events s =
             batch_loop cfg post token batch_size (Suc i) (drop batch_size events) s'"
proof -
  have r: "reconcile (post token i payloads) (length (take batch_size events)) = FAILED"
    using assms(4) by (auto simp: reconcile_def)
  define s' where "s' = snd (process_batch cfg post token i (take batch_size events) s)"
  have pb: "process_batch cfg post token i (take batch_size events) s = (None, s')"
    unfolding s'_def process_batch_submitted[OF assms(3)] by simp
  have m: "batch_marked FAILED (map fst (take batch_size events)) (pending s) (durable s')"
    and c: "durable s' = pending s'"
    unfolding s'_def process_batch_submitted[OF assms(3)] r
    by (simp_all add: executemany_update_marked)
  have l: "batch_loop cfg post token batch_size i events s =
             batch_loop cfg post token batch_size (Suc i) (drop batch_size events) s'"
    using assms(1,2) pb by (subst batch_loop.simps) simp
  from pb m c l show ?thesis by blast
qed

text \<open>Batches of one event each: the first submission raises, the others succeed.\<close>

theorem failed_submission_marks_batch_and_continues_witness:
  "(\<exists>s'. process_batch cfg3 post5 (JStr ''tok'') 0 (take 1 batch3) (session3 RECEIVED RECEIVED RECEIVED)
          = (None, s') \<and>
         durable s' = pending s' \<and>
         batch_loop cfg3 post5 (JStr ''tok'') 1 0 batch3 (session3 RECEIVED RECEIVED RECEIVED)
          = batch_loop cfg3 post5 (JStr ''tok'') 1 (Suc 0) (drop 1 batch3) s') \<and>
   batch_loop cfg3 post5 (JStr ''tok'') 1 0 batch3 (session3 RECEIVED RECEIVED RECEIVED)
     = (None, session3 FAILED CREATED CREATED)"
proof -
  have p: "batch_payload cfg3 (take 1 batch3) = Inr [payload3 ''e1'' 5 ''CRITICAL'']"
    by code_simp
  have e: "batch3 \<noteq> []" by (simp add: batch3_def)
  have z: "0 < (1::nat)" by simp
  have h: "post5 (JStr ''tok'') 0 [payload3 ''e1'' 5 ''CRITICAL''] = PostRaises \<or>
           (\<exists>code body. post5 (JStr ''tok'') 0 [payload3 ''e1'' 5 ''CRITICAL''] = Response code body \<and>
                         (code \<noteq> 200 \<or> resource_count body = None))"
    by (simp add: post5_def)
  have r: "batch_loop cfg3 post5 (JStr ''tok'') 1 0 batch3 (session3 RECEIVED RECEIVED RECEIVED)
             = (None, session3 FAILED CREATED CREATED)"
    by code_simp
  show ?thesis
    using failed_submission_marks_batch_and_continues[where post = post5 and token = "JStr ''tok''"
        and i = 0 and s = "session3 RECEIVED RECEIVED RECEIVED", OF e z p h] r
    by blast
qed

subsection \<open>Ingestion\<close>

lemma execute_values_Nil [simp]: "execute_values [] d = d"
  by (simp add: execute_values_def)

lemma execute_values_Cons [simp]: "execute_values (r # rows) d = execute_values rows (insert_do_nothing r d)"
  by (simp add: execute_values_def)

lemma insert_do_nothing_cases:
  "insert_do_nothing r d = (if fst r \<noteq> None \<and> fst r \<in> set (map event_id d) then d else d @ [new_row r])"
  by (cases r) (simp add: insert_do_nothing_def new_row_def)

lemma event_id_new_row [simp]: "event_id (new_row r) = fst r"
  by (cases r) (simp add: new_row_def)

lemma execute_values_extends: "\<exists>new. execute_values rows d = d @ new"
proof (induction rows arbitrary: d)
  case Nil
  show ?case by simp
next
  case (Cons r rows)
  obtain new where n: "execute_values rows (insert_do_nothing r d) = insert_do_nothing r d @ new"
    using Cons.IH by blast
  have "insert_do_nothing r d = d \<or> insert_do_nothing r d = d @ [new_row r]"
    by (simp add: insert_do_nothing_cases)
  then show ?case using n by auto
qed











lemma fetch_extends: "\<exists>new. fetch_instana_events reply d = d @ new"
proof -
  have "fetch_instana_events reply d = d \<or> (\<exists>rows. fetch_instana_events reply d = execute_values rows d)"
    by (auto simp: fetch_instana_events_def execute_values_def split: fetch_reply.splits json.splits sum.splits)
  then show ?thesis using execute_values_extends by (metis append_Nil2)
qed

lemma fetch_keeps_rows: "take (length d) (fetch_instana_events reply d) = d"
  using fetch_extends[of reply d] by auto




subsection \<open>The synchronization run\<close>

lemma kept_refl: "kept ids d d"
  by (simp add: kept_def list_all2_same)

lemma kept_update: "set ids' \<subseteq> set ids \<Longrightarrow> kept ids d (executemany_update st ids' d)"
  by (auto simp: kept_def executemany_update_map list_all2_map2 list_all2_same)

lemma kept_trans:
  assumes "kept ids d d'" and "kept ids d' d''"
  shows "kept ids d d''"
  using assms unfolding kept_def
  by (rule list_all2_trans[rotated]) auto

lemma process_batch_kept:
  assumes "process_batch cfg post token i batch s = (err, s')" and "set (map fst batch) \<subseteq> set ids"
  shows "kept ids (pending s) (pending s') \<and> (durable s = pending s \<longrightarrow> durable s' = pending s')"
  using assms kept_update[of "map fst batch" ids "pending s"] kept_refl[of ids "pending s"]
  by (auto simp: process_batch_def commit_def execute_update_def Let_def split: sum.splits)

lemma batch_loop_kept:
  "batch_loop cfg post token batch_size i events s = (err, s') \<Longrightarrow> set (map fst events) \<subseteq> set ids \<Longrightarrow>
   durable s = pending s \<Longrightarrow>
   kept ids (pending s) (pending s') \<and> durable s' = pending s'"
proof (induction cfg post token batch_size i events s rule: batch_loop.induct)
  case (1 cfg post token batch_size i events s)
  show ?case
  proof (cases "events = [] \<or> batch_size = 0")
    case True
    then show ?thesis using "1.prems" by (simp add: batch_loop.simps kept_refl)
  next
    case False
    obtain e1 s1 where pb: "process_batch cfg post token i (take batch_size events) s = (e1, s1)"
      by (cases "process_batch cfg post token i (take batch_size events) s") auto
    have sub: "set (map fst (take batch_size events)) \<subseteq> set ids"
      using "1.prems"(2) by (auto dest: in_set_takeD)
    have k1: "kept ids (pending s) (pending s1)" and c1: "durable s1 = pending s1"
      using process_batch_kept[OF pb sub] "1.prems"(3) by auto
    show ?thesis
    proof (cases e1)
      case None
      have l: "batch_loop cfg post token batch_size (Suc i) (drop batch_size events) s1 = (err, s')"
        using "1.prems"(1) False pb None by (subst (asm) batch_loop.simps) simp
      have sub2: "set (map fst (drop batch_size events)) \<subseteq> set ids"
        using "1.prems"(2) by (auto dest: in_set_dropD)
      have "kept ids (pending s1) (pending s') \<and> durable s' = pending s'"
        using "1.IH"[OF False pb[symmetric] None l sub2 c1] .
      then show ?thesis using k1 kept_trans by blast
    next
      case (Some e)
      have "s' = s1"
        using "1.prems"(1) False pb Some by (subst (asm) batch_loop.simps) simp
      then show ?thesis using k1 c1 by simp
    qed
  qed
qed


lemma batch_payload_length: "batch_payload cfg batch = Inr ps \<Longrightarrow> length ps = length batch"
  by (induction cfg batch arbitrary: ps rule: batch_payload.induct) (auto split: sum.splits)

lemma batch_payload_take_drop:
  "batch_payload cfg batch = Inr ps \<Longrightarrow>
   batch_payload cfg (take n batch) = Inr (take n ps) \<and> batch_payload cfg (drop n batch) = Inr (drop n ps)"
proof (induction cfg batch arbitrary: ps n rule: batch_payload.induct)
  case (1 cfg)
  then show ?case by simp
next
  case (2 cfg ev_id ev_json rest)
  then show ?case by (cases n) (auto split: sum.splits)
qed

lemma executemany_update_twice:
  "executemany_update st ids2 (executemany_update st ids1 d) = executemany_update st (ids1 @ ids2) d"
  by (simp add: executemany_update_def)

lemma batch_loop_all_accepted:
  "\<forall>i ps. \<exists>body. post token i ps = Response 200 body \<and> resource_count body = Some (length ps) \<Longrightarrow>
   batch_payload cfg events = Inr ps \<Longrightarrow> 0 < batch_size \<Longrightarrow> durable s = pending s \<Longrightarrow>
   batch_loop cfg post token batch_size i events s
     = (None, \<lparr>durable = executemany_update CREATED (map fst events) (pending s),
               pending = executemany_update CREATED (map fst events) (pending s)\<rparr>)"
proof (induction cfg post token batch_size i events s arbitrary: ps rule: batch_loop.induct)
  case (1 cfg post token batch_size i events s)
  show ?case
  proof (cases "events = []")
    case True
    then show ?thesis using "1.prems"(4) by (simp add: batch_loop.simps executemany_update_def)
  next
    case False
    let ?b = "take batch_size events"
    let ?s1 = "\<lparr>durable = executemany_update CREATED (map fst ?b) (pending s),
                pending = executemany_update CREATED (map fst ?b) (pending s)\<rparr>"
    have p1: "batch_payload cfg ?b = Inr (take batch_size ps)"
      and p2: "batch_payload cfg (drop batch_size events) = Inr (drop batch_size ps)"
      using batch_payload_take_drop[OF "1.prems"(2)] by auto
    have len: "length (take batch_size ps) = length ?b"
      using batch_payload_length[OF p1] .
    obtain body where b: "post token i (take batch_size ps) = Response 200 body"
      and rc: "resource_count body = Some (length (take batch_size ps))"
      using "1.prems"(1) by blast
    have r: "reconcile (post token i (take batch_size ps)) (length ?b) = CREATED"
      using rc len by (simp add: b reconcile_def)
    have pb: "process_batch cfg post token i ?b s = (None, ?s1)"
      unfolding process_batch_submitted[OF p1] r by simp
    have ne: "\<not> (events = [] \<or> batch_size = 0)" using False "1.prems"(3) by simp
    have ih: "batch_loop cfg post token batch_size (Suc i) (drop batch_size events) ?s1
        = (None, \<lparr>durable = executemany_update CREATED (map fst (drop batch_size events)) (pending ?s1),
                  pending = executemany_update CREATED (map fst (drop batch_size events)) (pending ?s1)\<rparr>)"
      using "1.IH"[OF ne pb[symmetric] refl "1.prems"(1) p2 "1.prems"(3)] by simp
    have j: "map fst ?b @ map fst (drop batch_size events) = map fst events"
      by (simp flip: map_append)
    show ?thesis
      using ne pb ih
      by (subst batch_loop.simps) (simp add: executemany_update_twice j)
  qed
qed

lemma unique_ids_same_row:
  "unique_ids d \<Longrightarrow> r \<in> set d \<Longrightarrow> r2 \<in> set d \<Longrightarrow> event_id r = event_id r2 \<Longrightarrow>
   event_id r \<noteq> None \<Longrightarrow> r = r2"
proof (induction d)
  case Nil
  then show ?case by simp
next
  case (Cons x d)
  have u: "unique_ids d" using Cons.prems(1) by (auto simp: unique_ids_def split: if_splits)
  have nx: "event_id x \<noteq> None \<Longrightarrow> event_id x \<notin> set (map event_id d)"
    using Cons.prems(1) by (auto simp: unique_ids_def)
  show ?case
  proof (cases "r = x")
    case True
    show ?thesis
    proof (cases "r2 = x")
      case True
      with \<open>r = x\<close> show ?thesis by simp
    next
      case False
      then have "r2 \<in> set d" using Cons.prems(3) by simp
      then have "event_id x \<in> set (map event_id d)" using Cons.prems(4) True by force
      then show ?thesis using nx Cons.prems(5) True by simp
    qed
  next
    case False
    then have rd: "r \<in> set d" using Cons.prems(2) by simp
    show ?thesis
    proof (cases "r2 = x")
      case True
      have "event_id r \<in> set (map event_id d)" using rd by simp
      then have "event_id x \<in> set (map event_id d)" using Cons.prems(4) True by simp
      then show ?thesis using nx Cons.prems(4,5) True by simp
    next
      case False
      then have "r2 \<in> set d" using Cons.prems(3) by simp
      then show ?thesis using Cons.IH[OF u rd _ Cons.prems(4,5)] by simp
    qed
  qed
qed

lemma created_not_selected:
  assumes "unique_ids d" "r \<in> set d" "status r = CREATED" "event_id r \<noteq> None"
  shows "event_id r \<notin> set (map fst (select_pending d))"
proof
  assume "event_id r \<in> set (map fst (select_pending d))"
  then obtain r2 where r2: "r2 \<in> set d" "status r2 = RECEIVED \<or> status r2 = FAILED" "event_id r2 = event_id r"
    by (auto simp: select_pending_def)
  have "r = r2" using unique_ids_same_row[OF assms(1,2) r2(1) r2(3)[symmetric] assms(4)] .
  then show False using r2(2) assms(3) by auto
qed

lemma kept_ids: "kept ids d d' \<Longrightarrow> map event_id d' = map event_id d"
  by (auto simp: kept_def list_all2_conv_all_nth intro: nth_equalityI)

lemma kept_created:
  assumes "unique_ids d" "kept (map fst (select_pending d)) d d'"
  shows "created_rows_kept d d'"
  unfolding created_rows_kept_def list_all2_conv_all_nth
proof (intro conjI allI impI)
  show "length d = length d'" using assms(2) by (simp add: kept_def list_all2_conv_all_nth)
next
  fix i assume i: "i < length d"
  then show "event_id (d' ! i) = event_id (d ! i)" and "event_json (d' ! i) = event_json (d ! i)"
    using assms(2) by (simp_all add: kept_def list_all2_conv_all_nth)
next
  fix i assume i: "i < length d" and c: "status (d ! i) = CREATED"
  have m: "d ! i \<in> set d" using i by simp
  have "status (d' ! i) = status (d ! i) \<or>
        event_id (d ! i) \<noteq> None \<and> event_id (d ! i) \<in> set (map fst (select_pending d))"
    using assms(2) i by (simp add: kept_def list_all2_conv_all_nth)
  then show "status (d' ! i) = CREATED"
    using created_not_selected[OF assms(1) m c] c by auto
qed

lemma process_all_events_kept:
  assumes "process_all_events cfg refresh now post (ts, d) = (err, ts', d')"
  shows "kept (map fst (select_pending d)) d d'"
proof (cases "select_pending d = []")
  case True
  then show ?thesis using assms by (simp add: process_all_events_def kept_refl)
next
  case False
  obtain r ts1 where g: "get_valid_refresh_token refresh now ts = (r, ts1)"
    by (cases "get_valid_refresh_token refresh now ts") auto
  show ?thesis
  proof (cases r)
    case (Inl e)
    then show ?thesis using assms False g
      by (simp add: process_all_events_def process_events_in_batches_def kept_refl)
  next
    case (Inr tok)
    obtain e s where l: "batch_loop cfg post tok 8500 0 (select_pending d) \<lparr>durable = d, pending = d\<rparr> = (e, s)"
      by (cases "batch_loop cfg post tok 8500 0 (select_pending d) \<lparr>durable = d, pending = d\<rparr>") auto
    have "kept (map fst (select_pending d)) d (pending s) \<and> durable s = pending s"
      using batch_loop_kept[OF l, of "map fst (select_pending d)"] by simp
    moreover have "d' = durable s"
      using assms False g Inr l
      by (simp add: process_all_events_def process_events_in_batches_def)
    ultimately show ?thesis by simp
  qed
qed

lemma process_all_events_accepted:
  assumes "get_valid_refresh_token refresh now ts = (Inr tok, ts1)"
    and "\<forall>i ps. \<exists>body. post tok i ps = Response 200 body \<and> resource_count body = Some (length ps)"
    and "batch_payload cfg (select_pending d) = Inr ps"
  shows "process_all_events cfg refresh now post (ts, d)
           = (None, if select_pending d = [] then ts else ts1,
              executemany_update CREATED (map fst (select_pending d)) d)"
proof (cases "select_pending d = []")
  case True
  then show ?thesis by (simp add: process_all_events_def executemany_update_def)
next
  case False
  have "batch_loop cfg post tok 8500 0 (select_pending d) \<lparr>durable = d, pending = d\<rparr>
          = (None, \<lparr>durable = executemany_update CREATED (map fst (select_pending d)) d,
                    pending = executemany_update CREATED (map fst (select_pending d)) d\<rparr>)"
    using batch_loop_all_accepted[where post = post and token = tok and batch_size = 8500
        and s = "\<lparr>durable = d, pending = d\<rparr>" and i = 0, OF assms(2,3)] by simp
  then show ?thesis using False assms(1)
    by (simp add: process_all_events_def process_events_in_batches_def)
qed

lemma delivered_update: "all_delivered d (executemany_update CREATED (map fst (select_pending d)) d)"
  unfolding all_delivered_def executemany_update_map list_all2_map2
proof (rule list_all2_all_nthI)
  show "length d = length d" by simp
next
  fix n assume "n < length d"
  then have m: "d ! n \<in> set d" by simp
  have "event_id (d ! n) \<in> set (map fst (select_pending d))" if "status (d ! n) \<noteq> CREATED"
  proof -
    have "status (d ! n) = RECEIVED \<or> status (d ! n) = FAILED" using that by (cases "status (d ! n)") auto
    then show ?thesis using m by (force simp: select_pending_def)
  qed
  then show "event_id (if event_id (d ! n) \<noteq> None \<and> event_id (d ! n) \<in> set (map fst (select_pending d))
                 then (d ! n)\<lparr>status := CREATED\<rparr> else d ! n) = event_id (d ! n) \<and>
        event_json (if event_id (d ! n) \<noteq> None \<and> event_id (d ! n) \<in> set (map fst (select_pending d))
                 then (d ! n)\<lparr>status := CREATED\<rparr> else d ! n) = event_json (d ! n) \<and>
        status (if event_id (d ! n) \<noteq> None \<and> event_id (d ! n) \<in> set (map fst (select_pending d))
                 then (d ! n)\<lparr>status := CREATED\<rparr> else d ! n) =
           (if event_id (d ! n) = None then status (d ! n) else CREATED)"
    by auto
qed

text \<open>
  C4. A table with unique ids and one synchronization run on it, whatever the mapping,
  the token guard and the downstream do: the run selects exactly the rows that are not
  CREATED (RECEIVED or FAILED); every row is still there with its id and payload, a
  CREATED row is still CREATED, and the ids are still unique, so the same holds of every
  later run. When the run gets a token, every selected event resolves and the downstream
  accepts every batch, the run raises nothing and every row with an id, the FAILED ones
  included, is CREATED afterwards; the next selection holds rows without an id only.
\<close>

theorem created_is_terminal_failed_is_retried:
  assumes "unique_ids d"
    and "process_all_events cfg refresh now post (ts, d) = (err, ts', d')"
  shows "select_pending d = map (\<lambda>r. (event_id r, event_json r)) (filter (\<lambda>r. status r \<noteq> CREATED) d) \<and>
         created_rows_kept d d' \<and> unique_ids d' \<and>
         ((\<exists>tok ts1 ps. get_valid_refresh_token refresh now ts = (Inr tok, ts1) \<and>
              (\<forall>i ps. \<exists>body. post tok i ps = Response 200 body \<and> resource_count body = Some (length ps)) \<and>
              batch_payload cfg (select_pending d) = Inr ps)
           \<longrightarrow> err = None \<and> all_delivered d d' \<and> select_pending d' = map (\<lambda>r. (event_id r, event_json r)) (filter (\<lambda>r. event_id r = None \<and> status r \<noteq> CREATED) d))"
proof -
  have "filter (\<lambda>r. status r = RECEIVED \<or> status r = FAILED) d = filter (\<lambda>r. status r \<noteq> CREATED) d"
    by (rule filter_cong[OF refl]) (metis status.exhaust status.distinct)
  then have sel: "select_pending d = map (\<lambda>r. (event_id r, event_json r)) (filter (\<lambda>r. status r \<noteq> CREATED) d)"
    by (simp add: select_pending_def)
  have k: "kept (map fst (select_pending d)) d d'" using assms(2) by (rule process_all_events_kept)
  have c: "created_rows_kept d d'" using assms(1) k by (rule kept_created)
  have u: "unique_ids d'" using assms(1) kept_ids[OF k] by (simp add: unique_ids_def)
  have a: "err = None \<and> all_delivered d d'"
    if "get_valid_refresh_token refresh now ts = (Inr tok, ts1)"
      and "\<forall>i ps. \<exists>body. post tok i ps = Response 200 body \<and> resource_count body = Some (length ps)"
      and "batch_payload cfg (select_pending d) = Inr ps" for tok ts1 ps
    using process_all_events_accepted[where post = post, OF that] assms(2) delivered_update[of d] by simp
  have n: "select_pending d' = map (\<lambda>r. (event_id r, event_json r))
                                  (filter (\<lambda>r. event_id r = None \<and> status r \<noteq> CREATED) d)"
    if "all_delivered d d'"
    using that unfolding all_delivered_def select_pending_def
    by (induction d d' rule: list_all2_induct) (auto, (metis status.exhaust)+)
  show ?thesis using sel c u a n by blast
qed

subsection \<open>The resolver at a failing input, the token guard, and concrete runs\<close>

text \<open>
  C1. The resolver raises: a \<open>func:uppercase_state\<close> rule on an event without the source
  field calls \<open>upper\<close> on \<open>None\<close>. The payloads of a batch are built outside the \<open>try\<close>,
  so the exception leaves the run: the second event, which resolves, is neither
  submitted nor reconciled.
\<close>

theorem resolver_raises_on_missing_field:
  "resolve_bhom_mapping [ODict []] (PRef 0) [(''status'', ''func:uppercase_state'')] = Inl AttributeError \<and>
   resolve_event cfg1 (ev1 ''e1'' []) = Inl AttributeError \<and>
   resolve_event cfg1 (ev1 ''e2'' [(''summary'', JStr ''disk full'')])
     = Inr (PRef 1, [ODict [(''eventId'', PStr ''e2''), (''state'', PStr ''open''),
                            (''summary'', PStr ''disk full'')],
                     ODict [(''summary'', PStr ''DISK FULL'')]]) \<and>
   process_all_events cfg1 RefreshFails 60000000 accept_all (fresh_store, db1)
     = (Some AttributeError, fresh_store, db1)"
  by code_simp

text \<open>
  The file that \<open>_create_new_refresh_token\<close> writes has the key \<open>refresh_token\<close>;
  \<open>get_valid_refresh_token\<close> reads \<open>json_web_token\<close>. So whatever the age of the token,
  the guard ends in the KeyError branch or the age branch, and both refresh.
\<close>

lemma persisted_token_is_never_reused:
  assumes "create_new_refresh_token reply0 now0 ts0 = (Inr tok, ts1)"
  shows "get_valid_refresh_token reply now ts1 = create_new_refresh_token reply now ts1"
proof -
  obtain t where "persisted ts1 = Doc (TimeAt (now0 div 1000000)) [(''refresh_token'', t)]"
    using assms by (auto simp: create_new_refresh_token_def Let_def split: refresh_reply.splits if_splits)
  then show ?thesis
    by (simp add: get_valid_refresh_token_def jget_def)
qed

text \<open>
  C2. A token persisted at time 0 and asked for nine minutes later is not reused: the
  guard calls the refresh endpoint, returns the new token and persists it.
\<close>

theorem persisted_token_not_reused_at_9_minutes:
  "create_new_refresh_token (RefreshToken (JStr ''tok1'')) 0 \<lparr>persisted = NoFile, refresh_calls = 0\<rparr>
     = (Inr (JStr ''tok1''),
        \<lparr>persisted = Doc (TimeAt 0) [(''refresh_token'', JStr ''tok1'')], refresh_calls = 1\<rparr>) \<and>
   get_valid_refresh_token (RefreshToken (JStr ''tok2'')) (9 * 60 * 1000000)
       \<lparr>persisted = Doc (TimeAt 0) [(''refresh_token'', JStr ''tok1'')], refresh_calls = 1\<rparr>
     = (Inr (JStr ''tok2''),
        \<lparr>persisted = Doc (TimeAt 540) [(''refresh_token'', JStr ''tok2'')], refresh_calls = 2\<rparr>)"
  by code_simp

text \<open>
  C9. The refresh endpoint fails or answers without a token, and the guard calls it:
  the guard raises RuntimeError and leaves the token file as it was. In the run, the
  ingestion has kept every row of the table as it was; when something is pending, the
  run ends with that RuntimeError and the table is the one the ingestion left (no
  status written); when nothing is pending, the guard is not called at all.
\<close>

theorem refresh_failure_aborts_run:
  assumes "reply = RefreshFails \<or> (\<exists>t. reply = RefreshToken t \<and> \<not> truthy t)"
    and "get_valid_refresh_token reply now ts = (r, ts')"
    and "refresh_calls ts' \<noteq> refresh_calls ts"
  shows "r = Inl RuntimeError \<and> persisted ts' = persisted ts \<and>
         take (length d) (fetch_instana_events fetch d) = d \<and>
         (if select_pending (fetch_instana_events fetch d) = []
          then run_pipeline cfg fetch reply now post (ts, d) = (None, ts, fetch_instana_events fetch d)
          else run_pipeline cfg fetch reply now post (ts, d)
                 = (Some RuntimeError, ts', fetch_instana_events fetch d) \<and>
               timer_main cfg fetch reply now post (ts, d) = (ts', fetch_instana_events fetch d))"
proof -
  have c: "create_new_refresh_token reply now ts
             = (Inl RuntimeError, ts\<lparr>refresh_calls := refresh_calls ts + 1\<rparr>)"
    using assms(1) by (auto simp: create_new_refresh_token_def Let_def)
  have g: "r = Inl RuntimeError \<and> persisted ts' = persisted ts"
    using assms(2,3) c
    by (auto simp: get_valid_refresh_token_def
             split: token_file.splits time_field.splits if_splits option.splits)
  have p: "run_pipeline cfg fetch reply now post (ts, d)
             = (Some RuntimeError, ts', fetch_instana_events fetch d)"
    if "select_pending (fetch_instana_events fetch d) \<noteq> []"
    using that assms(2) g
    by (simp add: run_pipeline_def process_all_events_def process_events_in_batches_def Let_def)
  have q: "run_pipeline cfg fetch reply now post (ts, d) = (None, ts, fetch_instana_events fetch d)"
    if "select_pending (fetch_instana_events fetch d) = []"
    using that by (simp add: run_pipeline_def process_all_events_def Let_def)
  show ?thesis using g p q fetch_keeps_rows[of d fetch] by (simp add: timer_main_def)
qed

text \<open>No token file, a failing refresh endpoint, and two rows pending.\<close>

theorem refresh_failure_aborts_run_witness:
  "get_valid_refresh_token RefreshFails 0 \<lparr>persisted = NoFile, refresh_calls = 0\<rparr>
     = (Inl RuntimeError, \<lparr>persisted = NoFile, refresh_calls = 1\<rparr>) \<and>
   run_pipeline cfg3 FetchFails RefreshFails 0 accept_all
       (\<lparr>persisted = NoFile, refresh_calls = 0\<rparr>, db3 RECEIVED FAILED CREATED)
     = (Some RuntimeError, \<lparr>persisted = NoFile, refresh_calls = 1\<rparr>, db3 RECEIVED FAILED CREATED)"
proof -
  have g: "get_valid_refresh_token RefreshFails 0 \<lparr>persisted = NoFile, refresh_calls = 0\<rparr>
             = (Inl RuntimeError, \<lparr>persisted = NoFile, refresh_calls = 1\<rparr>)"
    by code_simp
  have a: "RefreshFails = RefreshFails \<or> (\<exists>t. RefreshFails = RefreshToken t \<and> \<not> truthy t)"
    by simp
  have n: "refresh_calls \<lparr>persisted = NoFile, refresh_calls = 1\<rparr>
             \<noteq> refresh_calls \<lparr>persisted = NoFile, refresh_calls = 0\<rparr>"
    by simp
  have f: "fetch_instana_events FetchFails (db3 RECEIVED FAILED CREATED) = db3 RECEIVED FAILED CREATED"
    by (simp add: fetch_instana_events_def)
  have s: "select_pending (db3 RECEIVED FAILED CREATED) \<noteq> []"
    by (simp add: select_pending_def db3_def)
  show ?thesis
    using refresh_failure_aborts_run[OF a g n, of "db3 RECEIVED FAILED CREATED" FetchFails cfg3 accept_all]
      g f s
    by simp
qed


text \<open>One row CREATED, one FAILED, one RECEIVED, and a downstream that accepts.\<close>

theorem created_is_terminal_failed_is_retried_witness:
  "process_all_events cfg3 RefreshFails 60000000 accept_all (fresh_store, db3 CREATED FAILED RECEIVED)
     = (None, fresh_store, db3 CREATED CREATED CREATED) \<and>
   select_pending (db3 CREATED FAILED RECEIVED) = [(Some ''e2'', ev3 ''e2'' 3), (Some ''e3'', ev3 ''e3'' 5)] \<and>
   select_pending (db3 CREATED CREATED CREATED) = [] \<and>
   created_rows_kept (db3 CREATED FAILED RECEIVED) (db3 CREATED CREATED CREATED) \<and>
   all_delivered (db3 CREATED FAILED RECEIVED) (db3 CREATED CREATED CREATED)"
proof -
  have u: "unique_ids (db3 CREATED FAILED RECEIVED)" by code_simp
  have p: "process_all_events cfg3 RefreshFails 60000000 accept_all (fresh_store, db3 CREATED FAILED RECEIVED)
     = (None, fresh_store, db3 CREATED CREATED CREATED)" by code_simp
  have g: "get_valid_refresh_token RefreshFails 60000000 fresh_store = (Inr (JStr ''tok''), fresh_store)"
    by code_simp
  have a: "\<forall>i ps. \<exists>body. accept_all (JStr ''tok'') i ps = Response 200 body \<and>
                          resource_count body = Some (length ps)"
    by (simp add: accept_all_def created_def resource_count_def jget_def py_len_def)
  have b: "batch_payload cfg3 (select_pending (db3 CREATED FAILED RECEIVED))
             = Inr [payload3 ''e2'' 3 ''WARNING'', payload3 ''e3'' 5 ''CRITICAL'']"
    by code_simp
  have s1: "select_pending (db3 CREATED FAILED RECEIVED) = [(Some ''e2'', ev3 ''e2'' 3), (Some ''e3'', ev3 ''e3'' 5)]"
    by (simp add: select_pending_def db3_def)
  have s2: "select_pending (db3 CREATED CREATED CREATED) = []"
    by (simp add: select_pending_def db3_def)
  show ?thesis
    using created_is_terminal_failed_is_retried[OF u p] g a b p s1 s2 by blast
qed

subsection \<open>The mapping resolver\<close>

lemma py_split_nonempty: "py_split s sep \<noteq> []"
  by (induction s sep rule: py_split.induct) (auto split: list.splits)

lemma py_split_absent: "\<not> occurs sep s \<Longrightarrow> py_split s sep = [s]"
  by (induction s) auto

lemma py_split_prefix: "sep \<noteq> [] \<Longrightarrow> py_split (sep @ rest) sep = [] # py_split rest sep"
  by (cases sep) (auto simp: startswith_def)

lemma split_second_prefix:
  "sep \<noteq> [] \<Longrightarrow> \<not> occurs sep rest \<Longrightarrow> split_second (sep @ rest) sep = Inr rest"
  by (simp add: split_second_def py_split_prefix py_split_absent)

lemma py_split_char_absent: "c \<notin> set p \<Longrightarrow> py_split p [c] = [p]"
  by (induction p) (auto simp: startswith_def)

lemma py_split_char: "c \<notin> set p \<Longrightarrow> py_split (p @ c # rest) [c] = p # py_split rest [c]"
  by (induction p) (auto simp: startswith_def)

lemma py_split_join:
  "\<forall>p \<in> set (p0 # ps). c \<notin> set p \<Longrightarrow> py_split (join [c] (p0 # ps)) [c] = p0 # ps"
proof (induction ps arbitrary: p0)
  case Nil
  then show ?case by (simp add: py_split_char_absent)
next
  case (Cons p1 ps)
  have "py_split (p0 @ c # join [c] (p1 # ps)) [c] = p0 # py_split (join [c] (p1 # ps)) [c]"
    using Cons.prems by (simp add: py_split_char)
  then show ?case using Cons by simp
qed

lemma subscript_key_errors: "subscript_key h v k = Inl e \<Longrightarrow> e = KeyError \<or> e = TypeError"
  by (auto simp: subscript_key_def split: pyval.splits pyobj.splits option.splits)

lemma py_index_errors: "py_index xs i = Inl e \<Longrightarrow> e = IndexError"
  by (auto simp: py_index_def split: if_splits)

lemma subscript_int_errors:
  "subscript_int h v i = Inl e \<Longrightarrow> e = KeyError \<or> e = IndexError \<or> e = TypeError"
  by (auto simp: subscript_int_def dest: py_index_errors split: pyval.splits pyobj.splits sum.splits)

lemma walk_errors:
  "list_all part_ok parts \<Longrightarrow> walk h v parts = Inl e \<Longrightarrow>
   e = KeyError \<or> e = IndexError \<or> e = TypeError"
proof (induction parts arbitrary: v)
  case Nil
  then show ?case by simp
next
  case (Cons part parts)
  have ok: "part_ok part" and oks: "list_all part_ok parts" using Cons.prems(1) by simp_all
  note ih = Cons.IH[OF oks]
  show ?case
  proof (cases "CHR ''['' \<in> set part")
    case False
    show ?thesis
    proof (cases "subscript_key h v part")
      case (Inl e1)
      then have "e = e1" using Cons.prems(2) False by simp
      then show ?thesis using subscript_key_errors[OF Inl] by auto
    next
      case (Inr v1)
      then have "walk h v1 parts = Inl e" using Cons.prems(2) False by simp
      then show ?thesis by (rule ih)
    qed
  next
    case True
    then obtain key idx i where sp: "py_split part ''['' = [key, idx]" and pi: "py_int idx = Inr i"
      using ok by (auto simp: part_ok_def split: list.splits sum.splits)
    show ?thesis
    proof (cases "subscript_key h v key")
      case (Inl e1)
      then have "e = e1" using Cons.prems(2) True sp by simp
      then show ?thesis using subscript_key_errors[OF Inl] by auto
    next
      case (Inr v1)
      note k = Inr
      show ?thesis
      proof (cases "subscript_int h v1 i")
        case (Inl e2)
        then have "e = e2" using Cons.prems(2) True sp pi k by simp
        then show ?thesis using subscript_int_errors[OF Inl] by auto
      next
        case (Inr v2)
        then have "walk h v2 parts = Inl e" using Cons.prems(2) True sp pi k by simp
        then show ?thesis by (rule ih)
      qed
    qed
  qed
qed

lemma get_nested_value_total:
  "path_ok p \<Longrightarrow> get_nested_value h data p = Inr (looked_up h data p)"
  using walk_errors[of "py_split (filter (\<lambda>c. c \<noteq> CHR '']'') p) ''.''" h data]
  by (auto simp: get_nested_value_def looked_up_def path_ok_def split: sum.splits)

lemma first_present_fallback:
  "list_all (\<lambda>k. path_ok (py_strip k)) keys \<Longrightarrow>
   first_present h ev keys = Inr (first_non_null (map (\<lambda>k. looked_up h ev (py_strip k)) keys))"
  by (induction keys) (auto simp: get_nested_value_total first_non_null_def)


lemma deref_at_length [simp]: "deref (h0 @ x # xs) (length h0) = x"
  by (simp add: deref_def)

lemma insert_fresh:
  "\<exists>H. (case descend (h0 @ [ODict []]) (PRef (length h0)) ks of
          Inl e \<Rightarrow> Inl e
        | Inr (d, h1) \<Rightarrow> setitem h1 d k v) = Inr (h0 @ H) \<and>
       dict_path (h0 @ H) (PRef (length h0)) (ks @ [k]) = Some v"
proof (induction ks arbitrary: h0)
  case Nil
  have "setitem (h0 @ [ODict []]) (PRef (length h0)) k v = Inr (h0 @ [ODict [(k, v)]])"
    by (simp add: setitem_def)
  moreover have "dict_path (h0 @ [ODict [(k, v)]]) (PRef (length h0)) [k] = Some v"
    by simp
  ultimately show ?case by auto
next
  case (Cons k1 ks)
  let ?g = "h0 @ [ODict [(k1, PRef (Suc (length h0)))]]"
  have sd: "setdefault (h0 @ [ODict []]) (PRef (length h0)) k1
              = Inr (PRef (length ?g), ?g @ [ODict []])"
    by (simp add: setdefault_def)
  obtain H where H: "(case descend (?g @ [ODict []]) (PRef (length ?g)) ks of
          Inl e \<Rightarrow> Inl e
        | Inr (d, h1) \<Rightarrow> setitem h1 d k v) = Inr (?g @ H)"
    and P: "dict_path (?g @ H) (PRef (length ?g)) (ks @ [k]) = Some v"
    using Cons.IH[of ?g] by blast
  have 1: "(case descend (h0 @ [ODict []]) (PRef (length h0)) (k1 # ks) of
          Inl e \<Rightarrow> Inl e
        | Inr (d, h1) \<Rightarrow> setitem h1 d k v) = Inr (h0 @ (ODict [(k1, PRef (Suc (length h0)))] # H))"
    using H by (simp add: sd)
  have 2: "dict_path (h0 @ (ODict [(k1, PRef (Suc (length h0)))] # H)) (PRef (length h0)) ((k1 # ks) @ [k]) = Some v"
    using P by simp
  show ?case using 1 2 by blast
qed

lemma insert_nested_key_fresh:
  "\<exists>H. insert_nested_key (h0 @ [ODict []]) (PRef (length h0)) field v = Inr (h0 @ H) \<and>
       dict_path (h0 @ H) (PRef (length h0)) (py_split field ''.'') = Some v"
proof -
  have "butlast (py_split field ''.'') @ [last (py_split field ''.'')] = py_split field ''.''"
    using py_split_nonempty by simp
  then show ?thesis
    using insert_fresh[where ?h0.0 = h0 and ks = "butlast (py_split field ''.'')"
        and k = "last (py_split field ''.'')" and v = v]
    by (simp add: insert_nested_key_def Let_def)
qed

lemma resolve_single_rule:
  assumes "rule_value (h @ [ODict []]) ev field rule = Inr v"
  shows "\<exists>H. resolve_bhom_mapping h ev [(field, rule)] = Inr ([PRef (length h)], h @ H) \<and>
             dict_path (h @ H) (PRef (length h)) (py_split field ''.'') = Some v"
proof -
  obtain H where "insert_nested_key (h @ [ODict []]) (PRef (length h)) field v = Inr (h @ H)"
    and "dict_path (h @ H) (PRef (length h)) (py_split field ''.'') = Some v"
    using insert_nested_key_fresh by blast
  then show ?thesis using assms by (simp add: resolve_bhom_mapping_def alloc_def)
qed

lemma event_data_rule_value:
  assumes "paths \<noteq> []"
    and "\<forall>p \<in> set paths. CHR ''|'' \<notin> set p"
    and "\<not> occurs ''event_data:'' (join ''|'' paths)"
    and "\<forall>p \<in> set paths. path_ok (py_strip p)"
  shows "rule_value h ev field (''event_data:'' @ join ''|'' paths)
           = Inr (first_non_null (map (\<lambda>p. looked_up h ev (py_strip p)) paths))"
proof -
  define rule where "rule = ''event_data:'' @ join ''|'' paths"
  have s: "\<not> startswith rule ''static:''" and e: "startswith rule ''event_data:''"
    by (simp_all add: rule_def startswith_def)
  have sp: "split_second rule ''event_data:'' = Inr (join ''|'' paths)"
    unfolding rule_def using assms(3) by (intro split_second_prefix) simp_all
  obtain p0 ps where ps: "paths = p0 # ps" using assms(1) by (cases paths) auto
  have j: "py_split (join ''|'' paths) ''|'' = paths"
    using assms(2) unfolding ps by (rule py_split_join)
  have ok: "list_all (\<lambda>k. path_ok (py_strip k)) paths" using assms(4) by (simp add: list_all_iff)
  have "rule_value h ev field rule
           = Inr (first_non_null (map (\<lambda>p. looked_up h ev (py_strip p)) paths))"
    unfolding rule_value_def using s e by (simp add: sp j first_present_fallback[OF ok])
  then show ?thesis by (simp only: rule_def)
qed

text \<open>
  C6. An \<open>event_data\<close> rule written as the grammar has it, \<open>event_data:\<close> followed by
  one or more paths joined by \<open>|\<close> (no path holds a \<open>|\<close>, the text holds no second
  \<open>event_data:\<close>, and every path, stripped, follows the source-path syntax): for every
  event and every heap, the value the resolver computes for the rule is the first
  looked-up value, from the left, that is not \<open>None\<close>, and the empty string when there
  is none. Resolving the mapping that consists of this rule does not raise, and the
  output document holds that value at the target path, so the key is present also when
  the value is the empty string.
\<close>

theorem fallback_chain_first_non_null:
  assumes "paths \<noteq> []"
    and "\<forall>p \<in> set paths. CHR ''|'' \<notin> set p"
    and "\<not> occurs ''event_data:'' (join ''|'' paths)"
    and "\<forall>p \<in> set paths. path_ok (py_strip p)"
  shows "rule_value h ev field (''event_data:'' @ join ''|'' paths)
           = Inr (first_non_null (map (\<lambda>p. looked_up h ev (py_strip p)) paths)) \<and>
         (\<exists>H. resolve_bhom_mapping h ev [(field, ''event_data:'' @ join ''|'' paths)]
                 = Inr ([PRef (length h)], h @ H) \<and>
               dict_path (h @ H) (PRef (length h)) (py_split field ''.'')
                 = Some (first_non_null (map (\<lambda>p. looked_up (h @ [ODict []]) ev (py_strip p)) paths)))"
  using event_data_rule_value[OF assms] resolve_single_rule[OF event_data_rule_value[OF assms]]
  by blast

text \<open>
  C8. A rule \<open>func:name\<close> whose name, stripped, is none of the three registered
  transforms (the name holds no second \<open>func:\<close>, and the source key of the target field
  follows the source-path syntax): for every event and every heap the value is the empty
  string; resolving the mapping that consists of this rule does not raise, and the
  output document holds the empty string at the target path.
\<close>

theorem unknown_transform_gives_empty_string:
  assumes "\<not> occurs ''func:'' name"
    and "py_strip name \<notin> set (map fst CUSTOM_FUNCTIONS)"
    and "path_ok (bhom_mapping_reverse_lookup field)"
  shows "rule_value h ev field (''func:'' @ name) = Inr (PStr []) \<and>
         (\<exists>H. resolve_bhom_mapping h ev [(field, ''func:'' @ name)] = Inr ([PRef (length h)], h @ H) \<and>
               dict_path (h @ H) (PRef (length h)) (py_split field ''.'') = Some (PStr []))"
proof -
  define rule where "rule = ''func:'' @ name"
  have s: "\<not> startswith rule ''static:''"
    and e: "\<not> startswith rule ''event_data:''"
    and f: "startswith rule ''func:''"
    by (simp_all add: rule_def startswith_def)
  have sp: "split_second rule ''func:'' = Inr name"
    unfolding rule_def using assms(1) by (intro split_second_prefix) simp_all
  have m: "map_of CUSTOM_FUNCTIONS (py_strip name) = None"
    using assms(2) by (simp add: map_of_eq_None_iff)
  have "rule_value h' ev field rule = Inr (PStr [])" for h'
    unfolding rule_value_def using s e f
    by (simp add: sp m Let_def get_nested_value_total[OF assms(3)])
  then have v: "rule_value h' ev field (''func:'' @ name) = Inr (PStr [])" for h'
    by (simp only: rule_def)
  show ?thesis using v[of h] resolve_single_rule[OF v] by blast
qed

text \<open>\<open>event_data:a.b|c.d\<close> with \<open>a.b\<close> null and \<open>c.d = "x"\<close>, and with both absent.\<close>

theorem fallback_chain_first_non_null_witness:
  "rule_value (snd doc6) (fst doc6) ''msg'' ''event_data:a.b|c.d'' = Inr (PStr ''x'') \<and>
   rule_value (snd doc0) (fst doc0) ''msg'' ''event_data:a.b|c.d'' = Inr (PStr []) \<and>
   (\<exists>H. resolve_bhom_mapping (snd doc0) (fst doc0) [(''msg'', ''event_data:a.b|c.d'')]
           = Inr ([PRef (length (snd doc0))], snd doc0 @ H) \<and>
         dict_path (snd doc0 @ H) (PRef (length (snd doc0))) [''msg''] = Some (PStr []))"
proof -
  have h1: "[''a.b'', ''c.d''] \<noteq> []" by simp
  have h2: "\<forall>p \<in> set [''a.b'', ''c.d'']. CHR ''|'' \<notin> set p" by simp
  have h3: "\<not> occurs ''event_data:'' (join ''|'' [''a.b'', ''c.d''])" by code_simp
  have h4: "\<forall>p \<in> set [''a.b'', ''c.d'']. path_ok (py_strip p)" by code_simp
  have j: "''event_data:'' @ join ''|'' [''a.b'', ''c.d''] = ''event_data:a.b|c.d''" by simp
  have k: "py_split ''msg'' ''.'' = [''msg'']" by code_simp
  have v6: "first_non_null (map (\<lambda>p. looked_up (snd doc6) (fst doc6) (py_strip p)) [''a.b'', ''c.d''])
              = PStr ''x''" by code_simp
  have v0: "first_non_null (map (\<lambda>p. looked_up (snd doc0) (fst doc0) (py_strip p)) [''a.b'', ''c.d''])
              = PStr []" by code_simp
  have w0: "first_non_null (map (\<lambda>p. looked_up (snd doc0 @ [ODict []]) (fst doc0) (py_strip p)) [''a.b'', ''c.d''])
              = PStr []" by code_simp
  note a = fallback_chain_first_non_null[OF h1 h2 h3 h4, of "snd doc6" "fst doc6" "''msg''", unfolded j v6]
  note b = fallback_chain_first_non_null[OF h1 h2 h3 h4, of "snd doc0" "fst doc0" "''msg''", unfolded j k v0 w0]
  show ?thesis using a b by blast
qed

text \<open>\<open>func:doesnotexist\<close> on the field \<open>severity\<close>.\<close>

theorem unknown_transform_gives_empty_string_witness:
  "rule_value (snd doc0) (fst doc0) ''severity'' ''func:doesnotexist'' = Inr (PStr []) \<and>
   (\<exists>H. resolve_bhom_mapping (snd doc0) (fst doc0) [(''severity'', ''func:doesnotexist'')]
           = Inr ([PRef (length (snd doc0))], snd doc0 @ H) \<and>
         dict_path (snd doc0 @ H) (PRef (length (snd doc0))) [''severity''] = Some (PStr []))"
proof -
  have h1: "\<not> occurs ''func:'' ''doesnotexist''" by code_simp
  have h2: "py_strip ''doesnotexist'' \<notin> set (map fst CUSTOM_FUNCTIONS)" by code_simp
  have h3: "path_ok (bhom_mapping_reverse_lookup ''severity'')" by code_simp
  have j: "''func:'' @ ''doesnotexist'' = ''func:doesnotexist''" by simp
  have k: "py_split ''severity'' ''.'' = [''severity'']" by code_simp
  note a = unknown_transform_gives_empty_string[OF h1 h2 h3, of "snd doc0" "fst doc0", unfolded j k]
  show ?thesis using a by blast
qed

end
